theory Spec2Isabelle
  imports Main "HOL-Library.Sublist" "HOL-Library.Multiset"
begin

section \<open>Strings\<close>

text \<open>
  A Python \<open>str\<close> is modelled by its UTF-8 encoding, a HOL string (a list of 8-bit
  characters); a \<open>str\<close> with a lone surrogate has no encoding and is not a value of the
  model. On encodings \<open>sub in s\<close> is \<^const>\<open>sublist\<close> and \<open>s.startswith(p)\<close> is
  \<^const>\<open>prefix\<close>, as on code points. \<open>str.lower()\<close> follows the Unicode tables of the
  Python runtime and is not defined here: it is the field \<open>str_lower\<close> of the world
  below.
\<close>

text \<open>
  The fold of the ASCII letters: a letter A..Z (codes 65..90) becomes lower case by
  setting the bit 0x20 and every other byte is kept. It is SQLite's \<open>LOWER\<close> and the fold
  of \<open>LIKE\<close>; \<open>str.lower()\<close> agrees with it on ASCII text.
\<close>

definition ascii_lower_char :: "char \<Rightarrow> char" where
  "ascii_lower_char c =
     (if 65 \<le> (of_char c :: nat) \<and> (of_char c :: nat) \<le> 90
      then (case c of Char b0 b1 b2 b3 b4 b5 b6 b7 \<Rightarrow> Char b0 b1 b2 b3 b4 True b6 b7)
      else c)"

definition ascii_lower :: "string \<Rightarrow> string" where
  "ascii_lower s = map ascii_lower_char s"

text \<open>
  The characters that \<open>str.strip()\<close> removes, those for which \<open>str.isspace()\<close> holds, each
  in UTF-8: U+0009..U+000D, U+001C..U+001F, U+0020, U+0085, U+00A0, U+1680,
  U+2000..U+200A, U+2028, U+2029, U+202F, U+205F and U+3000.
\<close>

definition WHITESPACE :: "string list" where
  "WHITESPACE =
     [[CHR 0x09], [CHR 0x0A], [CHR 0x0B], [CHR 0x0C], [CHR 0x0D],
      [CHR 0x1C], [CHR 0x1D], [CHR 0x1E], [CHR 0x1F], [CHR 0x20],
      [CHR 0xC2, CHR 0x85], [CHR 0xC2, CHR 0xA0], [CHR 0xE1, CHR 0x9A, CHR 0x80],
      [CHR 0xE2, CHR 0x80, CHR 0x80], [CHR 0xE2, CHR 0x80, CHR 0x81],
      [CHR 0xE2, CHR 0x80, CHR 0x82], [CHR 0xE2, CHR 0x80, CHR 0x83],
      [CHR 0xE2, CHR 0x80, CHR 0x84], [CHR 0xE2, CHR 0x80, CHR 0x85],
      [CHR 0xE2, CHR 0x80, CHR 0x86], [CHR 0xE2, CHR 0x80, CHR 0x87],
      [CHR 0xE2, CHR 0x80, CHR 0x88], [CHR 0xE2, CHR 0x80, CHR 0x89],
      [CHR 0xE2, CHR 0x80, CHR 0x8A], [CHR 0xE2, CHR 0x80, CHR 0xA8],
      [CHR 0xE2, CHR 0x80, CHR 0xA9], [CHR 0xE2, CHR 0x80, CHR 0xAF],
      [CHR 0xE2, CHR 0x81, CHR 0x9F], [CHR 0xE3, CHR 0x80, CHR 0x80]]"

text \<open>Removing from the front of \<open>s\<close>, as long as there is one, a sequence of \<open>seqs\<close>.\<close>

function strip_left :: "string list \<Rightarrow> string \<Rightarrow> string" where
  "strip_left seqs s =
     (case find (\<lambda>q. q \<noteq> [] \<and> prefix q s) seqs of
        None \<Rightarrow> s
      | Some q \<Rightarrow> strip_left seqs (drop (length q) s))"
  by pat_completeness auto
termination
proof (relation "measure (\<lambda>(seqs, s). length s)")
  show "wf (measure (\<lambda>(seqs, s). length s))" by simp
next
  fix seqs :: "string list" and s q :: string
  assume "find (\<lambda>q. q \<noteq> [] \<and> prefix q s) seqs = Some q"
  then have "q \<noteq> []" and "prefix q s" by (auto simp: find_Some_iff)
  then have "s \<noteq> []" by auto
  with \<open>q \<noteq> []\<close> have "length (drop (length q) s) < length s" by simp
  then show "((seqs, drop (length q) s), (seqs, s)) \<in> measure (\<lambda>(seqs, s). length s)"
    by simp
qed

definition lstrip :: "string \<Rightarrow> string" where
  "lstrip s = strip_left WHITESPACE s"

definition rstrip :: "string \<Rightarrow> string" where
  "rstrip s = rev (strip_left (map rev WHITESPACE) (rev s))"

definition strip :: "string \<Rightarrow> string" where
  "strip s = rstrip (lstrip s)"

definition NUL :: char where
  "NUL = CHR 0x00"

datatype exn = ValueError string | OperationalError string | Raised string

section \<open>Articles and the article table\<close>

text \<open>
  The fields of a newspaper \<open>Article\<close> that the program reads. The fields \<open>text\<close>
  and \<open>keywords\<close> of the source are \<open>body\<close> and \<open>kwds\<close> here.
\<close>

record article =
  url :: string
  title :: string
  summary :: string
  kwds :: "string list"
  body :: string

text \<open>
  A row of the table \<open>articles\<close> of \<open>scraping.py\<close>, in the columns that the program
  writes. The column \<open>url\<close> is \<open>UNIQUE\<close>. The column \<open>id\<close> is left out: the engine
  assigns it from a counter of its own, and the program neither writes nor reads it.
\<close>

record row =
  source_col :: string
  title_col :: string
  url_col :: string
  summary_col :: string
  keywords_col :: string
  text_col :: string

type_synonym table = "row list"

text \<open>
  \<open>init_db\<close>: \<open>CREATE TABLE IF NOT EXISTS\<close> on the database file, in which the table is
  absent (\<open>None\<close>) or present with the rows of earlier runs.
\<close>

definition init_db :: "table option \<Rightarrow> table" where
  "init_db file = (case file of None \<Rightarrow> [] | Some t \<Rightarrow> t)"

text \<open>\<open>clean_text\<close>; the argument \<open>None\<close> is Python's \<open>None\<close>.\<close>

definition clean_text :: "string option \<Rightarrow> string" where
  "clean_text t =
     (case t of
        None \<Rightarrow> []
      | Some s \<Rightarrow> if s = [] then [] else strip (filter (\<lambda>c. c \<noteq> NUL) s))"

text \<open>\<open>", ".join(xs)\<close>\<close>

fun join :: "string \<Rightarrow> string list \<Rightarrow> string" where
  "join sep [] = []"
| "join sep [x] = x"
| "join sep (x # y # ys) = x @ sep @ join sep (y # ys)"

text \<open>The tuple of values that \<open>save_article\<close> binds to the \<open>INSERT\<close> statement.\<close>

definition new_row :: "article \<Rightarrow> string \<Rightarrow> row" where
  "new_row a source =
     \<lparr> source_col = source,
       title_col = clean_text (Some (title a)),
       url_col = clean_text (Some (url a)),
       summary_col = clean_text (Some (summary a)),
       keywords_col = clean_text (Some (join '', '' (kwds a))),
       text_col = clean_text (Some (body a)) \<rparr>"

text \<open>
  \<open>INSERT OR IGNORE\<close>: the row is appended unless it conflicts with the \<open>UNIQUE\<close>
  column of a stored row, in which case the statement does nothing.
\<close>

definition insert_or_ignore :: "table \<Rightarrow> row \<Rightarrow> table" where
  "insert_or_ignore t r =
     (if list_ex (\<lambda>x. url_col x = url_col r) t then t else t @ [r])"

datatype upsert_report = Inserted | Already_present

text \<open>
  \<open>save_article\<close> returns the table after the commit and the value of the call. The
  function has no \<open>return\<close> statement, so the value is Python's \<open>None\<close> on both paths.
\<close>

definition save_article :: "table \<Rightarrow> article \<Rightarrow> string \<Rightarrow> table \<times> upsert_report option" where
  "save_article t a source = (insert_or_ignore t (new_row a source), None)"

text \<open>
  SQLite's \<open>LIKE\<close> reads pattern and text as C strings, up to the first NUL, and
  character by character: a byte from 0xC0 on starts a character that goes on over the
  bytes 0x80..0xBF after it. In the pattern \<open>%\<close> matches any sequence of characters and
  \<open>_\<close> any single character; every other character matches itself, the ASCII letters
  without regard to case.
\<close>

definition c_string :: "string \<Rightarrow> string" where
  "c_string s = takeWhile (\<lambda>c. c \<noteq> NUL) s"

definition continuation :: "char \<Rightarrow> bool" where
  "continuation c = (128 \<le> (of_char c :: nat) \<and> (of_char c :: nat) < 192)"

fun skip_char :: "string \<Rightarrow> string" where
  "skip_char [] = []"
| "skip_char (c # cs) = (if 192 \<le> (of_char c :: nat) then dropWhile continuation cs else cs)"

function like_from :: "string \<Rightarrow> string \<Rightarrow> bool" where
  "like_from [] s = (s = [])"
| "like_from (p # ps) [] = (p = CHR ''%'' \<and> like_from ps [])"
| "like_from (p # ps) (c # cs) =
     (if p = CHR ''%'' then like_from ps (c # cs) \<or> like_from (p # ps) (skip_char (c # cs))
      else if p = CHR ''_'' then like_from ps (skip_char (c # cs))
      else ascii_lower_char p = ascii_lower_char c \<and> like_from ps cs)"
  by pat_completeness auto
termination
proof (relation "measure (\<lambda>(p, s). length p + length s)")
  fix p c :: char and ps cs :: string
  have "length (skip_char (c # cs)) \<le> length cs"
    by (simp add: length_dropWhile_le)
  then show "((p # ps, skip_char (c # cs)), (p # ps, c # cs))
               \<in> measure (\<lambda>(p, s). length p + length s)"
    and "((ps, skip_char (c # cs)), (p # ps, c # cs))
               \<in> measure (\<lambda>(p, s). length p + length s)"
    by simp_all
qed simp_all

definition like :: "string \<Rightarrow> string \<Rightarrow> bool" where
  "like pat s = like_from (c_string pat) (c_string s)"

text \<open>
  \<open>search_articles\<close>. The function prints the fetched rows; the model returns them. The
  engine evaluates the \<open>WHERE\<close> clause on each stored row and refuses a pattern of more
  than 50000 bytes when it does so.
\<close>

definition search_articles :: "string \<Rightarrow> table \<Rightarrow> exn + (string \<times> string \<times> string \<times> string) list" where
  "search_articles needle t =
     (let pat = ''%'' @ needle @ ''%'' in
      if t \<noteq> [] \<and> 50000 < length pat
      then Inl (OperationalError ''LIKE or GLOB pattern too complex'')
      else Inr (map (\<lambda>r. (source_col r, title_col r, url_col r, summary_col r))
             (filter (\<lambda>r. like pat (ascii_lower (summary_col r))
                          \<or> like pat (ascii_lower (text_col r))
                          \<or> like pat (ascii_lower (keywords_col r))) t)))"

section \<open>URL filters\<close>

definition SOURCES :: "(string \<times> string) list" where
  "SOURCES =
     [(''CNN'', ''https://edition.cnn.com''),
      (''BBC'', ''https://www.bbc.com''),
      (''Al Jazeera'', ''https://www.aljazeera.com''),
      (''Times of Israel'', ''https://www.timesofisrael.com'')]"

definition BAD_PATTERNS :: "string list" where
  "BAD_PATTERNS =
     [''/ads/'', ''/advertorial/'', ''/iplayer/'', ''/reel/'', ''/av/'', ''/promo/'',
      ''/sponsored/'']"

definition GOOD_PATTERNS :: "(string \<times> string list) list" where
  "GOOD_PATTERNS =
     [(''BBC'', [''/news/'', ''/sport/'']),
      (''CNN'', [''/2025/'']),
      (''Al Jazeera'', []),
      (''Times of Israel'', [])]"

text \<open>\<open>d.get(k, default)\<close> on a dictionary given by its items.\<close>

definition dict_get :: "('k \<times> 'v) list \<Rightarrow> 'k \<Rightarrow> 'v \<Rightarrow> 'v" where
  "dict_get d k dflt = (case map_of d k of None \<Rightarrow> dflt | Some v \<Rightarrow> v)"

text \<open>
  \<open>is_valid_article\<close>, with \<open>str.lower\<close> and the module's allow-list table as
  parameters, and at the table of the source.
\<close>

definition is_valid_article_in :: "(string \<Rightarrow> string) \<Rightarrow> (string \<times> string list) list \<Rightarrow> article \<Rightarrow> string \<Rightarrow> bool" where
  "is_valid_article_in lower allow a source =
     (let u = lower (url a) in
      if list_ex (\<lambda>bad. sublist bad u) BAD_PATTERNS then False
      else
        let good_patterns = dict_get allow source [] in
        if good_patterns \<noteq> [] \<and> \<not> list_ex (\<lambda>good. sublist good u) good_patterns then False
        else True)"

definition is_valid_article :: "(string \<Rightarrow> string) \<Rightarrow> article \<Rightarrow> string \<Rightarrow> bool" where
  "is_valid_article lower a source = is_valid_article_in lower GOOD_PATTERNS a source"

section \<open>The collaborators\<close>

text \<open>
  What the run takes from outside: \<open>build\<close> is \<open>newspaper.build(url).articles\<close>, or the
  text of the exception it raises; \<open>download_parse_nlp\<close> is the sequence
  \<open>download(); parse(); nlp()\<close> on an article, giving the populated article or the text
  of the exception; \<open>detect\<close> is \<open>langdetect.detect\<close>, with \<open>None\<close> for
  \<open>LangDetectException\<close>; \<open>str_lower\<close> is \<open>str.lower\<close> of the Python runtime;
  \<open>completion\<close> fixes the order in which the futures of the pool complete.
\<close>

record world =
  build :: "string \<Rightarrow> string + article list"
  download_parse_nlp :: "article \<Rightarrow> string + article"
  detect :: "string \<Rightarrow> string option"
  str_lower :: "string \<Rightarrow> string"
  completion :: "nat list"

text \<open>What the run does outside: a call of \<open>build\<close> on a site, a task given to the pool.\<close>

datatype event = Build string | Submit string

section \<open>Article processing\<close>

text \<open>The value is a \<open>str\<close> (\<open>Inl\<close>) after an exception and the article otherwise.\<close>

definition process_article :: "world \<Rightarrow> article \<Rightarrow> string + article" where
  "process_article w a =
     (case download_parse_nlp w a of
        Inr done \<Rightarrow> Inr done
      | Inl e \<Rightarrow> Inl (''Failed to process '' @ url a @ '': '' @ e))"

text \<open>
  \<open>as_completed\<close> yields every pending future once; which one comes next is read from
  the completion choices (the first pending one when they are used up).
\<close>

function as_completed :: "nat list \<Rightarrow> 'a list \<Rightarrow> 'a list" where
  "as_completed choices [] = []"
| "as_completed choices (f # fs) =
     (let i = (case choices of [] \<Rightarrow> 0 | c # _ \<Rightarrow> c mod Suc (length fs))
      in (f # fs) ! i # as_completed (tl choices) (take i (f # fs) @ drop (Suc i) (f # fs)))"
  by pat_completeness auto
termination
  by (relation "measure (\<lambda>(choices, fs). length fs)") (auto split: list.splits)

text \<open>
  The \<open>with ThreadPoolExecutor(max_workers=workers)\<close> block up to the completed futures:
  the constructor raises \<open>ValueError\<close> unless \<open>workers\<close> is positive; each submitted item
  \<open>x\<close> gets one future, which runs \<open>process_article\<close> on its article \<open>art x\<close> and is kept
  with \<open>x\<close> in \<open>future_to_article\<close>.
\<close>

definition run_pool :: "world \<Rightarrow> int \<Rightarrow> ('a \<Rightarrow> article) \<Rightarrow> 'a list \<Rightarrow> exn + ('a \<times> (string + article)) list" where
  "run_pool w workers art submitted =
     (if workers \<le> 0 then Inl (ValueError ''max_workers must be greater than 0'')
      else Inr (as_completed (completion w) (map (\<lambda>x. (x, process_article w (art x))) submitted)))"

section \<open>Scraping\<close>

text \<open>The slice \<open>xs[:n]\<close>; a negative \<open>n\<close> counts from the end.\<close>

definition slice_to :: "'a list \<Rightarrow> int \<Rightarrow> 'a list" where
  "slice_to xs n = (if n < 0 then take (length xs - nat (- n)) xs else take (nat n) xs)"

text \<open>
  \<open>if max_per_source: source_articles = source_articles[:max_per_source]\<close>; the test is
  false for \<open>None\<close> and for 0.
\<close>

definition apply_cap :: "int option \<Rightarrow> 'a list \<Rightarrow> 'a list" where
  "apply_cap max_per_source xs =
     (case max_per_source of
        None \<Rightarrow> xs
      | Some n \<Rightarrow> if n \<noteq> 0 then slice_to xs n else xs)"

text \<open>
  The first loop of \<open>scrape_sources\<close>, over the items of \<open>SOURCES\<close>, with the log of the
  calls made so far and \<open>all_raw_articles\<close>. An exception of \<open>build\<close> is not caught.
\<close>

fun build_sources :: "world \<Rightarrow> int option \<Rightarrow> (string \<times> string) list \<Rightarrow> event list \<Rightarrow> (article \<times> string) list \<Rightarrow> event list \<times> (exn + (article \<times> string) list)" where
  "build_sources w max_per_source [] log all_raw_articles = (log, Inr all_raw_articles)"
| "build_sources w max_per_source ((source_name, root) # rest) log all_raw_articles =
     (case build w root of
        Inl e \<Rightarrow> (log @ [Build root], Inl (Raised e))
      | Inr articles \<Rightarrow>
          let source_articles =
                apply_cap max_per_source (filter (\<lambda>a. is_valid_article (str_lower w) a source_name) articles)
          in build_sources w max_per_source rest (log @ [Build root])
               (all_raw_articles @ map (\<lambda>a. (a, source_name)) source_articles))"

text \<open>
  The body of the second loop decides on one completed future. Each verdict but the last
  is a line printed before \<open>continue\<close>.
\<close>

datatype verdict =
    Failed string
  | Skipped_non_English string
  | Could_not_detect string
  | Skipped_no_keyword_match string
  | Passed article

definition keyword_filter :: "(string \<Rightarrow> string) \<Rightarrow> string list option \<Rightarrow> article \<Rightarrow> bool" where
  "keyword_filter lower kws r =
     (case kws of
        None \<Rightarrow> True
      | Some ks \<Rightarrow>
          if ks \<noteq> [] then
            let text_lower = lower (title r @ '' '' @ summary r @ '' '' @ body r)
            in list_ex (\<lambda>kw. sublist (lower kw) text_lower) ks
          else True)"

definition check_result :: "world \<Rightarrow> string list option \<Rightarrow> string + article \<Rightarrow> verdict" where
  "check_result w kws result =
     (case result of
        Inl msg \<Rightarrow> Failed msg
      | Inr r \<Rightarrow>
          (case detect w (body r) of
             None \<Rightarrow> Could_not_detect (url r)
           | Some lang \<Rightarrow>
               if lang \<noteq> ''en'' then Skipped_non_English (url r)
               else if \<not> keyword_filter (str_lower w) kws r then Skipped_no_keyword_match (url r)
               else Passed r))"

text \<open>
  The second loop, over the completed futures; \<open>keep r x\<close> is what is appended to
  \<open>results\<close> for the processed article \<open>r\<close> of the submitted item \<open>x\<close>.
\<close>

fun collect :: "world \<Rightarrow> string list option \<Rightarrow> (article \<Rightarrow> 'a \<Rightarrow> 'b) \<Rightarrow> ('a \<times> (string + article)) list \<Rightarrow> 'b list \<Rightarrow> 'b list" where
  "collect w kws keep [] results = results"
| "collect w kws keep ((x, result) # futures) results =
     (case check_result w kws result of
        Passed r \<Rightarrow> collect w kws keep futures (results @ [keep r x])
      | _ \<Rightarrow> collect w kws keep futures results)"

definition scrape_sources :: "world \<Rightarrow> int \<Rightarrow> string list option \<Rightarrow> int option \<Rightarrow> event list \<times> (exn + (article \<times> string) list)" where
  "scrape_sources w workers kws max_per_source =
     (case build_sources w max_per_source SOURCES [] [] of
        (log, Inl e) \<Rightarrow> (log, Inl e)
      | (log, Inr all_raw_articles) \<Rightarrow>
          (case run_pool w workers fst all_raw_articles of
             Inl e \<Rightarrow> (log, Inl e)
           | Inr completed \<Rightarrow>
               (log @ map (\<lambda>x. Submit (url (fst x))) all_raw_articles,
                Inr (collect w kws (\<lambda>r x. (r, snd x)) completed []))))"

text \<open>\<open>scrape_all_articles\<close> of \<open>scrapingmain.py\<close>, the variant for one site.\<close>

definition scrape_all_articles :: "world \<Rightarrow> int \<Rightarrow> int option \<Rightarrow> string list option \<Rightarrow> event list \<times> (exn + article list)" where
  "scrape_all_articles w workers peos kws =
     (case build w ''https://edition.cnn.com'' of
        Inl e \<Rightarrow> ([Build ''https://edition.cnn.com''], Inl (Raised e))
      | Inr articles \<Rightarrow>
          let raw_articles =
                apply_cap peos
                  (filter (\<lambda>a. prefix ''https://edition.cnn.com/2025/'' (url a)) articles)
          in (case run_pool w workers (\<lambda>a. a) raw_articles of
                Inl e \<Rightarrow> ([Build ''https://edition.cnn.com''], Inl e)
              | Inr completed \<Rightarrow>
                  (Build ''https://edition.cnn.com'' # map (\<lambda>a. Submit (url a)) raw_articles,
                   Inr (collect w kws (\<lambda>r a. r) completed []))))"

section \<open>Vocabulary of the properties\<close>

text \<open>
  A cleaned field holds no NUL and neither starts nor ends with a character of
  \<open>WHITESPACE\<close>.
\<close>

definition cleaned :: "string \<Rightarrow> bool" where
  "cleaned f \<longleftrightarrow>
     NUL \<notin> set f \<and> list_all (\<lambda>q. \<not> prefix q f \<and> \<not> suffix q f) WHITESPACE"

text \<open>A run of white space: characters of \<open>WHITESPACE\<close> one after the other.\<close>

definition blank :: "string \<Rightarrow> bool" where
  "blank s \<longleftrightarrow> (\<exists>qs. set qs \<subseteq> set WHITESPACE \<and> s = concat qs)"

text \<open>
  The stored form \<open>f\<close> of an input \<open>s\<close>: \<open>f\<close> is cleaned, and \<open>s\<close> without its NULs is
  \<open>f\<close> between two runs of white space.
\<close>

definition stored_form :: "string \<Rightarrow> string \<Rightarrow> bool" where
  "stored_form s f \<longleftrightarrow>
     cleaned f \<and> (\<exists>pre post. blank pre \<and> blank post \<and> filter (\<lambda>c. c \<noteq> NUL) s = pre @ f @ post)"

text \<open>An article used in the examples.\<close>

definition example_article :: article where
  "example_article =
     \<lparr> url = ''https://edition.cnn.com/2025/a '', title = [CHR ''a'', CHR 0x01, CHR ''b''],
       summary = '' peace talks'', kwds = [''summit'', ''peace''], body = ''Election Day'' \<rparr>"

text \<open>
  An article of CNN whose url has the required fragment of the allow-list and, with a
  capital letter, a fragment of the deny-list.
\<close>

definition denied_article :: article where
  "denied_article =
     \<lparr> url = ''https://edition.cnn.com/2025/Ads/x'', title = [], summary = [], kwds = [],
       body = [] \<rparr>"

text \<open>An article whose title ends and whose summary starts inside the word \<open>bc\<close>.\<close>

definition boundary_article :: article where
  "boundary_article = \<lparr> url = ''u'', title = ''ab'', summary = ''cd'', kwds = [], body = [] \<rparr>"

text \<open>
  A world for the examples: CNN lists two articles and the other sites none; fetching the
  second article fails; the detector knows the text of the first as English; the texts
  are ASCII, where \<open>str.lower\<close> is the fold of the ASCII letters; the second future
  completes first.
\<close>

definition example_world :: world where
  "example_world =
     \<lparr> build = (\<lambda>root. if root = ''https://edition.cnn.com''
                        then Inr [example_article, denied_article] else Inr []),
       download_parse_nlp = (\<lambda>a. if url a = url denied_article then Inl ''timeout'' else Inr a),
       detect = (\<lambda>s. if s = [] then None else if s = ''Election Day'' then Some ''en''
                      else Some ''fr''),
       str_lower = ascii_lower,
       completion = [1, 0] \<rparr>"

text \<open>The valid articles that \<open>build\<close> finds on one site, each with the name of the site.\<close>

definition eligible_of :: "world \<Rightarrow> string \<times> string \<Rightarrow> (article \<times> string) list" where
  "eligible_of w s =
     (case build w (snd s) of
        Inl e \<Rightarrow> []
      | Inr articles \<Rightarrow>
          map (\<lambda>a. (a, fst s))
            (filter (\<lambda>a. is_valid_article (str_lower w) a (fst s)) articles))"

text \<open>The table after the example article was saved into an empty database.\<close>

definition example_table :: table where
  "example_table = fst (save_article (init_db None) example_article ''CNN'')"

section \<open>The article table\<close>

declare strip_left.simps [simp del]

lemma filter_unique_key:
  "distinct (map f xs) \<Longrightarrow> r \<in> set xs \<Longrightarrow> filter (\<lambda>x. f x = f r) xs = [r]"
proof (induction xs)
  case Nil
  then show ?case by simp
next
  case (Cons x xs)
  show ?case
  proof (cases "x = r")
    case True
    from Cons.prems(1) True have "f r \<notin> f ` set xs" by simp
    then have "\<forall>y\<in>set xs. f y \<noteq> f r" by (metis imageI)
    then have "filter (\<lambda>y. f y = f r) xs = []" by (simp add: filter_empty_conv)
    with True show ?thesis by simp
  next
    case False
    with Cons.prems have r: "r \<in> set xs" by simp
    then have "f x \<noteq> f r" using Cons.prems(1) by auto
    with Cons.IH Cons.prems(1) r show ?thesis by simp
  qed
qed

lemma insert_or_ignore_present:
  "r \<in> set t \<Longrightarrow> url_col r = url_col n \<Longrightarrow> insert_or_ignore t n = t"
  by (auto simp: insert_or_ignore_def list_ex_iff)

lemma url_col_new_row: "url_col (new_row a source) = clean_text (Some (url a))"
  by (simp add: new_row_def)

lemma insert_or_ignore_distinct:
  "distinct (map url_col t) \<Longrightarrow> distinct (map url_col (insert_or_ignore t n))"
  by (auto simp: insert_or_ignore_def list_ex_iff)

lemma strip_left_decomp:
  "\<exists>qs. set qs \<subseteq> set seqs \<and> s = concat qs @ strip_left seqs s"
proof (induction seqs s rule: strip_left.induct)
  case (1 seqs s)
  show ?case
  proof (cases "find (\<lambda>q. q \<noteq> [] \<and> prefix q s) seqs")
    case None
    then have "strip_left seqs s = s" by (simp add: strip_left.simps [of seqs s])
    then have "set [] \<subseteq> set seqs \<and> s = concat [] @ strip_left seqs s" by simp
    then show ?thesis by blast
  next
    case (Some q)
    then have q: "q \<in> set seqs" and p: "prefix q s"
      by (auto simp: find_Some_iff)
    from p have s: "s = q @ drop (length q) s" by (auto simp: prefix_def)
    from Some have e: "strip_left seqs s = strip_left seqs (drop (length q) s)"
      by (simp add: strip_left.simps [of seqs s])
    from "1.IH" [OF Some] obtain qs where
      qs: "set qs \<subseteq> set seqs"
      and d: "drop (length q) s = concat qs @ strip_left seqs (drop (length q) s)"
      by blast
    have "s = concat (q # qs) @ strip_left seqs s"
      using s d e by (metis append.assoc concat.simps(2))
    moreover have "set (q # qs) \<subseteq> set seqs" using q qs by simp
    ultimately show ?thesis by blast
  qed
qed

lemma strip_left_no_prefix:
  "q \<in> set seqs \<Longrightarrow> q \<noteq> [] \<Longrightarrow> \<not> prefix q (strip_left seqs s)"
proof (induction seqs s rule: strip_left.induct)
  case (1 seqs s)
  show ?case
  proof (cases "find (\<lambda>q. q \<noteq> [] \<and> prefix q s) seqs")
    case None
    then have "strip_left seqs s = s" by (simp add: strip_left.simps [of seqs s])
    moreover from None "1.prems" have "\<not> prefix q s" by (auto simp: find_None_iff)
    ultimately show ?thesis by simp
  next
    case (Some q')
    then have "strip_left seqs s = strip_left seqs (drop (length q') s)"
      by (simp add: strip_left.simps [of seqs s])
    with "1.IH" [OF Some "1.prems"] show ?thesis by simp
  qed
qed

lemma WHITESPACE_nonempty: "q \<in> set WHITESPACE \<Longrightarrow> q \<noteq> []"
  by (auto simp: WHITESPACE_def)

lemma lstrip_decomp: "\<exists>pre. blank pre \<and> s = pre @ lstrip s"
  using strip_left_decomp [of WHITESPACE s] unfolding blank_def lstrip_def by blast

lemma rstrip_decomp: "\<exists>post. blank post \<and> s = rstrip s @ post"
proof -
  from strip_left_decomp [of "map rev WHITESPACE" "rev s"] obtain qs where
    qs: "set qs \<subseteq> set (map rev WHITESPACE)"
    and d: "rev s = concat qs @ strip_left (map rev WHITESPACE) (rev s)"
    by blast
  from d have "rev (rev s) = rev (concat qs @ strip_left (map rev WHITESPACE) (rev s))"
    by simp
  then have "s = rstrip s @ concat (map rev (rev qs))"
    by (simp add: rstrip_def rev_concat)
  moreover have "set (map rev (rev qs)) \<subseteq> set WHITESPACE"
    using qs by auto
  ultimately show ?thesis unfolding blank_def by blast
qed

lemma strip_decomp: "\<exists>pre post. blank pre \<and> blank post \<and> s = pre @ strip s @ post"
proof -
  from lstrip_decomp [of s] obtain pre where pre: "blank pre" "s = pre @ lstrip s" by blast
  from rstrip_decomp [of "lstrip s"] obtain post where
    post: "blank post" "lstrip s = rstrip (lstrip s) @ post" by blast
  from pre(2) post(2) have "s = pre @ strip s @ post" by (simp add: strip_def)
  with pre(1) post(1) show ?thesis by blast
qed

lemma strip_no_prefix:
  assumes "q \<in> set WHITESPACE"
  shows "\<not> prefix q (strip s)"
proof
  assume p: "prefix q (strip s)"
  from rstrip_decomp [of "lstrip s"] have "prefix (strip s) (lstrip s)"
    by (auto simp: strip_def prefix_def)
  with p have "prefix q (lstrip s)" by (rule prefix_order.trans)
  moreover have "\<not> prefix q (lstrip s)"
    unfolding lstrip_def using assms WHITESPACE_nonempty [OF assms]
    by (rule strip_left_no_prefix)
  ultimately show False by simp
qed

lemma strip_no_suffix:
  assumes "q \<in> set WHITESPACE"
  shows "\<not> suffix q (strip s)"
proof
  assume "suffix q (strip s)"
  then have "prefix (rev q) (strip_left (map rev WHITESPACE) (rev (lstrip s)))"
    by (simp add: strip_def rstrip_def suffix_to_prefix)
  moreover have "rev q \<in> set (map rev WHITESPACE)" using assms by simp
  moreover have "rev q \<noteq> []" using WHITESPACE_nonempty [OF assms] by simp
  ultimately show False using strip_left_no_prefix by blast
qed

lemma set_strip: "set (strip s) \<subseteq> set s"
proof -
  from strip_decomp [of s] obtain pre post where "s = pre @ strip s @ post" by blast
  then have "set s = set pre \<union> set (strip s) \<union> set post" by (metis set_append Un_assoc)
  then show ?thesis by blast
qed

lemma blank_Nil: "blank []"
  unfolding blank_def by (rule exI [of _ "[]"]) simp

lemma cleaned_Nil: "cleaned []"
  by (auto simp: cleaned_def list_all_iff dest: WHITESPACE_nonempty)

lemma cleaned_strip: "NUL \<notin> set s \<Longrightarrow> cleaned (strip s)"
  using set_strip [of s] strip_no_prefix [of _ s] strip_no_suffix [of _ s]
  by (auto simp: cleaned_def list_all_iff)

lemma stored_form_clean_text: "stored_form s (clean_text (Some s))"
proof (cases "s = []")
  case True
  have "filter (\<lambda>c. c \<noteq> NUL) [] = [] @ [] @ []" by simp
  with True blank_Nil cleaned_Nil show ?thesis
    unfolding stored_form_def clean_text_def by (simp del: append.simps)
next
  case False
  let ?n = "filter (\<lambda>c. c \<noteq> NUL) s"
  have "NUL \<notin> set ?n" by simp
  then have "cleaned (strip ?n)" by (rule cleaned_strip)
  moreover from strip_decomp [of ?n] have
    "\<exists>pre post. blank pre \<and> blank post \<and> ?n = pre @ strip ?n @ post" .
  ultimately show ?thesis using False by (simp add: stored_form_def clean_text_def)
qed

lemma cleaned_clean_text: "cleaned (clean_text x)"
proof (cases x)
  case None
  then show ?thesis by (simp add: clean_text_def cleaned_Nil)
next
  case (Some s)
  with stored_form_clean_text [of s] show ?thesis by (simp add: stored_form_def)
qed

lemma clean_text_examples:
  "clean_text (Some '' peace talks'') = ''peace talks''"
  "clean_text (Some [CHR 0xC2, CHR 0xA0, CHR ''a'', CHR 0x00, CHR 0xC2, CHR 0x85, CHR 0x0A]) = ''a''"
  "clean_text (Some [CHR ''a'', CHR 0x01, CHR ''b'']) = [CHR ''a'', CHR 0x01, CHR ''b'']"
  "clean_text (Some ''https://edition.cnn.com/2025/a '') = ''https://edition.cnn.com/2025/a''"
  by (simp_all add: clean_text_def strip_def lstrip_def rstrip_def NUL_def WHITESPACE_def
      strip_left.simps)

lemma WHITESPACE_ascii_all:
  "list_all (\<lambda>q. \<forall>c \<in> set q. (of_char c :: nat) < 128 \<longrightarrow> q = [c]) WHITESPACE"
  by (simp add: WHITESPACE_def)

lemma WHITESPACE_ascii:
  "q \<in> set WHITESPACE \<Longrightarrow> c \<in> set q \<Longrightarrow> (of_char c :: nat) < 128 \<Longrightarrow> q = [c]"
  using WHITESPACE_ascii_all unfolding list_all_iff by blast

lemma blank_ascii:
  assumes "blank s" and "c \<in> set s" and "(of_char c :: nat) < 128"
  shows "[c] \<in> set WHITESPACE"
proof -
  from assms(1) obtain qs where qs: "set qs \<subseteq> set WHITESPACE" and s: "s = concat qs"
    unfolding blank_def by blast
  from assms(2) s obtain q where "q \<in> set qs" and c: "c \<in> set q" by auto
  with qs have q: "q \<in> set WHITESPACE" by blast
  from WHITESPACE_ascii [OF q c assms(3)] q show ?thesis by simp
qed

lemma clean_text_keeps_ascii:
  assumes "c \<in> set s" and "c \<noteq> NUL" and "(of_char c :: nat) < 128"
    and "[c] \<notin> set WHITESPACE"
  shows "c \<in> set (clean_text (Some s))"
proof -
  from stored_form_clean_text [of s] obtain pre post where
    b: "blank pre" "blank post"
    and d: "filter (\<lambda>c. c \<noteq> NUL) s = pre @ clean_text (Some s) @ post"
    unfolding stored_form_def by blast
  from assms(1,2) have "c \<in> set (filter (\<lambda>c. c \<noteq> NUL) s)" by simp
  with d have "c \<in> set pre \<or> c \<in> set (clean_text (Some s)) \<or> c \<in> set post"
    by (metis Un_iff set_append)
  moreover have "c \<notin> set pre" using blank_ascii [OF b(1) _ assms(3)] assms(4) by blast
  moreover have "c \<notin> set post" using blank_ascii [OF b(2) _ assms(3)] assms(4) by blast
  ultimately show ?thesis by blast
qed

lemma save_article_distinct:
  "distinct (map url_col t) \<Longrightarrow> distinct (map url_col (fst (save_article t a source)))"
  by (simp add: save_article_def insert_or_ignore_distinct)

lemma save_article_twice:
  "fst (save_article (fst (save_article t a source)) a source') = fst (save_article t a source)"
  by (auto simp: save_article_def insert_or_ignore_def list_ex_iff url_col_new_row)

text \<open>
  C1, as the code has it. When the table holds a row whose url is the cleaned url of the
  article, \<open>save_article\<close> leaves the table as it is: the row \<open>r\<close> keeps every field, it
  stays the only row with that url, and the call ends without an exception, since its
  result is the table. The value of the call is \<open>None\<close>: nothing is reported.
\<close>

theorem save_article_existing_url:
  assumes "distinct (map url_col t)" and "r \<in> set t"
    and "url_col r = clean_text (Some (url a))"
  shows "fst (save_article t a source) = t
       \<and> filter (\<lambda>x. url_col x = clean_text (Some (url a))) (fst (save_article t a source)) = [r]
       \<and> snd (save_article t a source) = None"
proof -
  have same: "fst (save_article t a source) = t"
    using assms(2,3) by (simp add: save_article_def insert_or_ignore_present url_col_new_row)
  have "filter (\<lambda>x. url_col x = url_col r) t = [r]"
    using assms(1,2) by (rule filter_unique_key)
  with same assms(3) show ?thesis by (simp add: save_article_def)
qed

theorem save_article_existing_url_witness:
  "fst (save_article (fst (save_article (init_db None) example_article ''CNN'')) example_article ''BBC'')
     = fst (save_article (init_db None) example_article ''CNN'')
   \<and> length (fst (save_article (init_db None) example_article ''CNN'')) = 1"
proof -
  let ?t = "fst (save_article (init_db None) example_article ''CNN'')"
  let ?r = "new_row example_article ''CNN''"
  have t: "?t = [?r]"
    by (simp add: save_article_def insert_or_ignore_def init_db_def)
  have 1: "distinct (map url_col ?t)" unfolding t by simp
  have 2: "?r \<in> set ?t" unfolding t by simp
  have 3: "url_col ?r = clean_text (Some (url example_article))" by (simp add: new_row_def)
  from save_article_existing_url [OF 1 2 3, of "''BBC''"] t show ?thesis by simp
qed

text \<open>
  C1 as stated fails in its last part: the second call for the same article does not
  report \<open>already_present\<close>.
\<close>

theorem save_article_reports_nothing:
  "snd (save_article (fst (save_article (init_db None) example_article ''CNN'')) example_article ''CNN'')
     \<noteq> Some Already_present"
  by (simp add: save_article_def)

text \<open>
  C8, as the code has it. A row that \<open>save_article\<close> adds holds in each of title, url,
  summary, keywords and text the cleaned input: the input without its NULs and without
  the white space before its first and after its last other character, everything in
  between as it is. So a stored field has no NUL and neither starts nor ends with white
  space; a missing or empty input is stored as the empty string.
\<close>

theorem stored_fields_cleaned:
  assumes "r \<in> set (fst (save_article t a source))" and "r \<notin> set t"
  shows "title_col r = clean_text (Some (title a))
       \<and> url_col r = clean_text (Some (url a))
       \<and> summary_col r = clean_text (Some (summary a))
       \<and> keywords_col r = clean_text (Some (join '', '' (kwds a)))
       \<and> text_col r = clean_text (Some (body a))
       \<and> stored_form (title a) (title_col r) \<and> stored_form (url a) (url_col r)
       \<and> stored_form (summary a) (summary_col r)
       \<and> stored_form (join '', '' (kwds a)) (keywords_col r)
       \<and> stored_form (body a) (text_col r)
       \<and> cleaned (title_col r) \<and> cleaned (url_col r) \<and> cleaned (summary_col r)
       \<and> cleaned (keywords_col r) \<and> cleaned (text_col r)
       \<and> clean_text None = [] \<and> clean_text (Some []) = []"
proof -
  from assms have "r = new_row a source"
    by (auto simp: save_article_def insert_or_ignore_def split: if_splits)
  then have "title_col r = clean_text (Some (title a))"
    and "url_col r = clean_text (Some (url a))"
    and "summary_col r = clean_text (Some (summary a))"
    and "keywords_col r = clean_text (Some (join '', '' (kwds a)))"
    and "text_col r = clean_text (Some (body a))"
    by (simp_all add: new_row_def)
  moreover have "clean_text None = []" and "clean_text (Some []) = []"
    by (simp_all add: clean_text_def)
  ultimately show ?thesis by (simp add: cleaned_clean_text stored_form_clean_text)
qed

theorem stored_fields_cleaned_witness:
  "summary_col (new_row example_article ''CNN'') = ''peace talks''
   \<and> stored_form '' peace talks'' (summary_col (new_row example_article ''CNN''))
   \<and> cleaned (title_col (new_row example_article ''CNN''))"
proof -
  let ?r = "new_row example_article ''CNN''"
  have 1: "?r \<in> set (fst (save_article [] example_article ''CNN''))"
    by (simp add: save_article_def insert_or_ignore_def)
  have 2: "?r \<notin> set []" by simp
  have s: "summary example_article = '' peace talks''" by (simp add: example_article_def)
  from stored_fields_cleaned [OF 1 2] have
    f1: "summary_col ?r = clean_text (Some (summary example_article))"
    and f2: "stored_form (summary example_article) (summary_col ?r)"
    and f3: "cleaned (title_col ?r)"
    by blast+
  have a: "summary_col ?r = ''peace talks''"
    using f1 unfolding s by (simp only: clean_text_examples(1))
  have b: "stored_form '' peace talks'' (summary_col ?r)"
    using f2 unfolding s .
  from a b f3 show ?thesis by (intro conjI)
qed

text \<open>
  C8 as stated fails: a control byte other than NUL inside a field is stored.
\<close>

theorem stored_field_keeps_control_byte:
  "CHR 0x01 \<in> set (title_col (last (fst (save_article (init_db None) example_article ''CNN''))))"
proof -
  have t: "fst (save_article (init_db None) example_article ''CNN'')
             = [new_row example_article ''CNN'']"
    by (simp add: save_article_def insert_or_ignore_def init_db_def)
  have "title example_article = [CHR ''a'', CHR 0x01, CHR ''b'']"
    by (simp add: example_article_def)
  then have "title_col (new_row example_article ''CNN'') = [CHR ''a'', CHR 0x01, CHR ''b'']"
    by (simp only: new_row_def row.simps clean_text_examples(3))
  with t show ?thesis by simp
qed

section \<open>The URL classifier\<close>

text \<open>
  C4. If the lower-cased url contains a fragment of the deny-list, the classifier answers
  \<open>False\<close> for every source and every allow-list table, that of the program included, and
  whatever \<open>str.lower\<close> does to the url. The classifier is a function of the url and the
  source, defined on all strings.
\<close>

theorem deny_list_wins:
  assumes "bad \<in> set BAD_PATTERNS" and "sublist bad (lower (url a))"
  shows "is_valid_article_in lower allow a source = False
       \<and> is_valid_article lower a source = False"
proof -
  from assms have "list_ex (\<lambda>bad. sublist bad (lower (url a))) BAD_PATTERNS"
    unfolding list_ex_iff by blast
  then show ?thesis by (simp add: is_valid_article_def is_valid_article_in_def)
qed

lemma lower_denied: "ascii_lower (url denied_article) = ''https://edition.cnn.com/2025/ads/x''"
  by (simp add: denied_article_def ascii_lower_def ascii_lower_char_def)

theorem deny_list_wins_witness:
  "sublist ''/2025/'' (ascii_lower (url denied_article))
   \<and> is_valid_article ascii_lower denied_article ''CNN'' = False"
proof -
  have 1: "''/ads/'' \<in> set BAD_PATTERNS" by (simp add: BAD_PATTERNS_def)
  have 2: "sublist ''/ads/'' (ascii_lower (url denied_article))"
    unfolding lower_denied by (simp add: sublist_code(3))
  have 3: "sublist ''/2025/'' (ascii_lower (url denied_article))"
    unfolding lower_denied by (simp add: sublist_code(3))
  from deny_list_wins [where lower = ascii_lower and a = denied_article
      and allow = GOOD_PATTERNS and source = "''CNN''", OF 1 2] 3
  show ?thesis by simp
qed

section \<open>The content filters\<close>

lemma collect_keeps: "set results \<subseteq> set (collect w kws keep futures results)"
proof (induction futures arbitrary: results)
  case Nil
  then show ?case by simp
next
  case (Cons f futures)
  obtain x result where f: "f = (x, result)" by (cases f)
  show ?case
  proof (cases "check_result w kws result")
    case (Passed r)
    have "set results \<subseteq> set (results @ [keep r x])" by auto
    also have "\<dots> \<subseteq> set (collect w kws keep futures (results @ [keep r x]))"
      by (rule Cons.IH)
    finally show ?thesis by (simp add: f Passed)
  qed (simp_all add: f Cons.IH)
qed

lemma collect_english:
  "detect w (body r) = Some ''en'' \<Longrightarrow>
   collect w kws keep ((x, Inr r) # futures) results
     = (if keyword_filter (str_lower w) kws r
        then collect w kws keep futures (results @ [keep r x])
        else collect w kws keep futures results)"
  by (simp add: check_result_def)

lemma collect_not_english:
  "detect w (body r) \<noteq> Some ''en'' \<Longrightarrow>
   collect w kws keep ((x, Inr r) # futures) results = collect w kws keep futures results"
  by (cases "detect w (body r)") (simp_all add: check_result_def)

lemma kept_in_results:
  assumes "detect w (body r) = Some ''en''" and "keyword_filter (str_lower w) kws r"
  shows "keep r x \<in> set (collect w kws keep ((x, Inr r) # futures) results)"
proof -
  have "keep r x \<in> set (results @ [keep r x])" by simp
  then have "keep r x \<in> set (collect w kws keep futures (results @ [keep r x]))"
    using collect_keeps [of "results @ [keep r x]" w kws keep futures] by (rule rev_subsetD)
  with assms show ?thesis by (simp only: collect_english if_True)
qed

text \<open>
  C5, as the code has it. With a non-empty keyword list the keyword filter passes an
  article exactly when the lower-cased form of some keyword occurs in the lower-cased
  title, summary and text joined by single blanks; without a list, or with an empty one,
  it passes every article. In the loop an English article is appended to the results
  when it passes the keyword filter, and left out when it does not.
\<close>

theorem keyword_filter_spaced:
  "keyword_filter lower None r
   \<and> keyword_filter lower (Some []) r
   \<and> (ks \<noteq> [] \<longrightarrow>
        keyword_filter lower (Some ks) r =
          (\<exists>kw \<in> set ks. \<exists>pre post.
             lower (title r @ '' '' @ summary r @ '' '' @ body r) = pre @ lower kw @ post))
   \<and> (detect w (body r) = Some ''en'' \<longrightarrow>
        (check_result w kws (Inr r) = Passed r) = keyword_filter (str_lower w) kws r)
   \<and> (detect w (body r) = Some ''en'' \<longrightarrow>
        collect w kws keep ((x, Inr r) # futures) results
          = (if keyword_filter (str_lower w) kws r
             then collect w kws keep futures (results @ [keep r x])
             else collect w kws keep futures results))"
proof -
  have 1: "keyword_filter lower None r" and 2: "keyword_filter lower (Some []) r"
    by (simp_all add: keyword_filter_def)
  have 3: "ks \<noteq> [] \<longrightarrow>
        keyword_filter lower (Some ks) r =
          (\<exists>kw \<in> set ks. \<exists>pre post.
             lower (title r @ '' '' @ summary r @ '' '' @ body r) = pre @ lower kw @ post)"
    by (simp add: keyword_filter_def list_ex_iff sublist_def)
  have 4: "detect w (body r) = Some ''en'' \<longrightarrow>
        (check_result w kws (Inr r) = Passed r) = keyword_filter (str_lower w) kws r"
    by (simp add: check_result_def)
  have 5: "detect w (body r) = Some ''en'' \<longrightarrow>
        collect w kws keep ((x, Inr r) # futures) results
          = (if keyword_filter (str_lower w) kws r
             then collect w kws keep futures (results @ [keep r x])
             else collect w kws keep futures results)"
    by (rule impI) (rule collect_english)
  from 1 2 3 4 5 show ?thesis by (intro conjI)
qed


theorem keyword_filter_spaced_witness:
  "keyword_filter ascii_lower (Some [''election'']) example_article
   \<and> \<not> keyword_filter ascii_lower (Some [''summit'']) example_article
   \<and> collect example_world (Some [''election'']) (\<lambda>r x. r) [((), Inr example_article)] []
       = [example_article]
   \<and> collect example_world (Some [''summit'']) (\<lambda>r x. r) [((), Inr example_article)] [] = []"
proof -
  let ?hay = "ascii_lower (title example_article @ '' '' @ summary example_article @ '' ''
                @ body example_article)"
  let ?keep = "\<lambda>(r::article) (x::unit). r"
  have e: "sublist (ascii_lower ''election'') ?hay"
    by (simp add: example_article_def ascii_lower_def ascii_lower_char_def sublist_code(3))
  have s: "\<not> sublist (ascii_lower ''summit'') ?hay"
    by (simp add: example_article_def ascii_lower_def ascii_lower_char_def sublist_code(3))
  have d: "detect example_world (body example_article) = Some ''en''"
    and l: "str_lower example_world = ascii_lower"
    by (simp_all add: example_world_def example_article_def)
  note k1 = keyword_filter_spaced [where lower = ascii_lower and r = example_article
      and ks = "[''election'']" and w = example_world and kws = "Some [''election'']"
      and keep = ?keep and x = "()" and futures = "[]" and results = "[]"]
  note k2 = keyword_filter_spaced [where lower = ascii_lower and r = example_article
      and ks = "[''summit'']" and w = example_world and kws = "Some [''summit'']"
      and keep = ?keep and x = "()" and futures = "[]" and results = "[]"]
  from k1 have "keyword_filter ascii_lower (Some [''election'']) example_article
          = (\<exists>kw \<in> set [''election'']. \<exists>pre post. ?hay = pre @ ascii_lower kw @ post)"
    by blast
  with e have a: "keyword_filter ascii_lower (Some [''election'']) example_article"
    by (simp add: sublist_def)
  from k2 have "keyword_filter ascii_lower (Some [''summit'']) example_article
          = (\<exists>kw \<in> set [''summit'']. \<exists>pre post. ?hay = pre @ ascii_lower kw @ post)"
    by blast
  with s have b: "\<not> keyword_filter ascii_lower (Some [''summit'']) example_article"
    by (simp add: sublist_def)
  from k1 d have "collect example_world (Some [''election'']) ?keep [((), Inr example_article)] []
      = (if keyword_filter (str_lower example_world) (Some [''election'']) example_article
         then collect example_world (Some [''election'']) ?keep [] ([] @ [example_article])
         else collect example_world (Some [''election'']) ?keep [] [])"
    by blast
  with a l have c1: "collect example_world (Some [''election'']) ?keep [((), Inr example_article)] []
      = [example_article]"
    by simp
  from k2 d have "collect example_world (Some [''summit'']) ?keep [((), Inr example_article)] []
      = (if keyword_filter (str_lower example_world) (Some [''summit'']) example_article
         then collect example_world (Some [''summit'']) ?keep [] ([] @ [example_article])
         else collect example_world (Some [''summit'']) ?keep [] [])"
    by blast
  with b l have c2: "collect example_world (Some [''summit'']) ?keep [((), Inr example_article)] []
      = []"
    by simp
  from a b c1 c2 show ?thesis by (intro conjI)
qed

text \<open>
  C5 as stated fails for the plain concatenation of the three fields: the keyword \<open>bc\<close>
  occurs in \<open>ab\<close> followed by \<open>cd\<close>, and the filter rejects the article.
\<close>

theorem keyword_filter_not_plain_concatenation:
  "\<not> (keyword_filter ascii_lower (Some [''bc'']) boundary_article
       = (\<exists>kw \<in> set [''bc'']. sublist (ascii_lower kw)
            (ascii_lower (title boundary_article @ summary boundary_article
               @ body boundary_article))))"
  by (simp add: keyword_filter_def boundary_article_def ascii_lower_def ascii_lower_char_def
      sublist_code(3))

text \<open>
  C6. The loop body drops an article whose detected language is not \<open>en\<close> and, with
  another line printed, one whose language cannot be detected; in both cases the loop
  goes on with the remaining futures and \<open>results\<close> unchanged. An article detected as
  \<open>en\<close> passes on to the keyword filter; when it passes that too, and always when no
  keyword list is configured, it is appended to \<open>results\<close> and is in the results of the
  loop.
\<close>

theorem language_filter:
  "(detect w (body r) = None \<longrightarrow> check_result w kws (Inr r) = Could_not_detect (url r))
   \<and> (\<forall>lang. detect w (body r) = Some lang \<and> lang \<noteq> ''en'' \<longrightarrow>
          check_result w kws (Inr r) = Skipped_non_English (url r))
   \<and> (detect w (body r) = Some ''en'' \<longrightarrow>
          check_result w kws (Inr r) =
            (if keyword_filter (str_lower w) kws r then Passed r
             else Skipped_no_keyword_match (url r)))
   \<and> (detect w (body r) \<noteq> Some ''en'' \<longrightarrow>
          collect w kws keep ((x, Inr r) # futures) results = collect w kws keep futures results)
   \<and> (detect w (body r) = Some ''en'' \<and> keyword_filter (str_lower w) kws r \<longrightarrow>
          collect w kws keep ((x, Inr r) # futures) results
            = collect w kws keep futures (results @ [keep r x])
          \<and> keep r x \<in> set (collect w kws keep ((x, Inr r) # futures) results))
   \<and> (detect w (body r) = Some ''en'' \<longrightarrow>
          collect w None keep ((x, Inr r) # futures) results
            = collect w None keep futures (results @ [keep r x]))"
proof -
  have 1: "detect w (body r) = None \<longrightarrow> check_result w kws (Inr r) = Could_not_detect (url r)"
    and 2: "\<forall>lang. detect w (body r) = Some lang \<and> lang \<noteq> ''en'' \<longrightarrow>
          check_result w kws (Inr r) = Skipped_non_English (url r)"
    and 3: "detect w (body r) = Some ''en'' \<longrightarrow>
          check_result w kws (Inr r) =
            (if keyword_filter (str_lower w) kws r then Passed r
             else Skipped_no_keyword_match (url r))"
    by (simp_all add: check_result_def)
  have 4: "detect w (body r) \<noteq> Some ''en'' \<longrightarrow>
          collect w kws keep ((x, Inr r) # futures) results = collect w kws keep futures results"
    by (rule impI) (rule collect_not_english)
  have 5: "detect w (body r) = Some ''en'' \<and> keyword_filter (str_lower w) kws r \<longrightarrow>
          collect w kws keep ((x, Inr r) # futures) results
            = collect w kws keep futures (results @ [keep r x])
          \<and> keep r x \<in> set (collect w kws keep ((x, Inr r) # futures) results)"
  proof (intro impI conjI)
    assume a: "detect w (body r) = Some ''en'' \<and> keyword_filter (str_lower w) kws r"
    then show "collect w kws keep ((x, Inr r) # futures) results
            = collect w kws keep futures (results @ [keep r x])"
      by (simp only: collect_english if_True)
    from a show "keep r x \<in> set (collect w kws keep ((x, Inr r) # futures) results)"
      by (simp only: kept_in_results)
  qed
  have 6: "detect w (body r) = Some ''en'' \<longrightarrow>
          collect w None keep ((x, Inr r) # futures) results
            = collect w None keep futures (results @ [keep r x])"
  proof
    assume d: "detect w (body r) = Some ''en''"
    have "keyword_filter (str_lower w) None r" by (simp add: keyword_filter_def)
    with collect_english [OF d, of None keep x futures results]
    show "collect w None keep ((x, Inr r) # futures) results
            = collect w None keep futures (results @ [keep r x])"
      by (simp only: if_True)
  qed
  from 1 2 3 4 5 6 show ?thesis by (intro conjI)
qed

theorem language_filter_witness:
  "check_result example_world None (Inr (example_article\<lparr>body := ''Bonjour''\<rparr>))
     = Skipped_non_English (url example_article)
   \<and> check_result example_world None (Inr (example_article\<lparr>body := []\<rparr>))
     = Could_not_detect (url example_article)
   \<and> check_result example_world None (Inr example_article) = Passed example_article
   \<and> collect example_world None (\<lambda>r x. r) [((), Inr (example_article\<lparr>body := []\<rparr>))] [] = []
   \<and> collect example_world None (\<lambda>r x. r) [((), Inr (example_article\<lparr>body := ''Bonjour''\<rparr>))] []
       = []
   \<and> collect example_world None (\<lambda>r x. r) [((), Inr example_article)] [] = [example_article]"
proof -
  let ?fr = "example_article\<lparr>body := ''Bonjour''\<rparr>"
  let ?no = "example_article\<lparr>body := []\<rparr>"
  let ?keep = "\<lambda>(r::article) (x::unit). r"
  have d1: "detect example_world (body ?fr) = Some ''fr''" and ne: "''fr'' \<noteq> ''en''"
    and n1: "detect example_world (body ?fr) \<noteq> Some ''en''"
    and d2: "detect example_world (body ?no) = None"
    and n2: "detect example_world (body ?no) \<noteq> Some ''en''"
    and d3: "detect example_world (body example_article) = Some ''en''"
    by (simp_all add: example_world_def example_article_def)
  have k: "keyword_filter (str_lower example_world) None example_article"
    by (simp add: keyword_filter_def)
  have u: "url ?fr = url example_article" "url ?no = url example_article" by simp_all
  have e: "collect example_world None ?keep [] [] = []"
    and e': "collect example_world None ?keep [] ([] @ [example_article]) = [example_article]"
    by simp_all
  note L = language_filter [where w = example_world and kws = None and keep = ?keep
      and x = "()" and futures = "[]" and results = "[]"]
  from L [where r = ?fr] d1 ne n1
  have a: "check_result example_world None (Inr ?fr) = Skipped_non_English (url ?fr)"
    and a': "collect example_world None ?keep [((), Inr ?fr)] []
               = collect example_world None ?keep [] []"
    by blast+
  from L [where r = ?no] d2 n2
  have b: "check_result example_world None (Inr ?no) = Could_not_detect (url ?no)"
    and c: "collect example_world None ?keep [((), Inr ?no)] []
              = collect example_world None ?keep [] []"
    by blast+
  from L [where r = example_article] d3
  have d: "check_result example_world None (Inr example_article)
             = (if keyword_filter (str_lower example_world) None example_article
                then Passed example_article
                else Skipped_no_keyword_match (url example_article))"
    and f: "collect example_world None ?keep [((), Inr example_article)] []
              = collect example_world None ?keep [] ([] @ [example_article])"
    by blast+
  from a a' b c d f k u e e' show ?thesis by (simp only: if_True simp_thms)
qed

section \<open>The pool\<close>

lemma mset_remove_nth:
  "i < length xs \<Longrightarrow> add_mset (xs ! i) (mset (take i xs @ drop (Suc i) xs)) = mset xs"
proof -
  assume "i < length xs"
  then have "xs = take i xs @ xs ! i # drop (Suc i) xs" by (rule id_take_nth_drop)
  then have "mset xs = mset (take i xs @ xs ! i # drop (Suc i) xs)" by simp
  then show ?thesis by simp
qed

lemma mset_as_completed: "mset (as_completed choices fs) = mset fs"
proof (induction choices fs rule: as_completed.induct)
  case (1 choices)
  then show ?case by simp
next
  case (2 choices f fs)
  define i where "i = (case choices of [] \<Rightarrow> 0 | c # _ \<Rightarrow> c mod Suc (length fs))"
  have i: "i < length (f # fs)" by (simp add: i_def split: list.splits)
  have "mset (as_completed (tl choices) (take i (f # fs) @ drop (Suc i) (f # fs)))
          = mset (take i (f # fs) @ drop (Suc i) (f # fs))"
    using "2.IH" [of i] by (simp add: i_def)
  moreover have "as_completed choices (f # fs)
          = (f # fs) ! i # as_completed (tl choices) (take i (f # fs) @ drop (Suc i) (f # fs))"
    by (simp add: i_def Let_def)
  ultimately show ?case using mset_remove_nth [OF i] by (simp del: as_completed.simps)
qed


lemma run_pool_positive:
  "0 < workers \<Longrightarrow>
   run_pool w workers art submitted
     = Inr (as_completed (completion w) (map (\<lambda>x. (x, process_article w (art x))) submitted))"
  by (simp add: run_pool_def)

lemma set_as_completed: "set (as_completed choices fs) = set fs"
  using mset_as_completed [of choices fs] by (metis set_mset_mset)

lemma length_as_completed: "length (as_completed choices fs) = length fs"
  using mset_as_completed [of choices fs] by (metis size_mset)

lemma collect_failed:
  "collect w kws keep ((x, Inl msg) # futures) results = collect w kws keep futures results"
  by (simp add: check_result_def)

lemma build_sources_run:
  "build_sources w mx SOURCES [] [] = (log, Inr all_raw) \<Longrightarrow> 0 < workers \<Longrightarrow>
   \<exists>res. snd (scrape_sources w workers kws mx) = Inr res"
  by (simp add: scrape_sources_def run_pool_def)

lemma build_run_single:
  "build w ''https://edition.cnn.com'' = Inr articles \<Longrightarrow> 0 < workers \<Longrightarrow>
   \<exists>res. snd (scrape_all_articles w workers peos kws) = Inr res"
  by (simp add: scrape_all_articles_def run_pool_def Let_def)

text \<open>
  C2. With a positive number of workers the pool gives, for every list of submitted items
  and every order of completion, exactly one outcome for each submitted item: the
  outcomes are a permutation of the submissions paired with their results, as many as were
  submitted, and each result is a failure text or a processed article. The number of
  workers may exceed the number of items.
\<close>

theorem one_outcome_per_submission:
  assumes "0 < workers"
  shows "\<exists>outs. run_pool w workers art submitted = Inr outs
           \<and> length outs = length submitted
           \<and> mset outs = mset (map (\<lambda>x. (x, process_article w (art x))) submitted)
           \<and> mset (map fst outs) = mset submitted
           \<and> (\<forall>out \<in> set outs. (\<exists>msg. snd out = Inl msg) \<or> (\<exists>r. snd out = Inr r))"
proof -
  let ?futures = "map (\<lambda>x. (x, process_article w (art x))) submitted"
  let ?outs = "as_completed (completion w) ?futures"
  have 1: "run_pool w workers art submitted = Inr ?outs"
    using assms by (rule run_pool_positive)
  have 2: "length ?outs = length submitted" by (simp add: length_as_completed)
  have 3: "mset ?outs = mset ?futures" by (rule mset_as_completed)
  have "mset (map fst ?outs) = image_mset fst (mset ?outs)" by (simp only: mset_map)
  also have "\<dots> = image_mset fst (mset ?futures)" by (simp only: 3)
  also have "\<dots> = mset (map fst ?futures)" by (simp only: mset_map)
  also have "map fst ?futures = submitted" by (simp add: comp_def)
  finally have 4: "mset (map fst ?outs) = mset submitted" .
  have 5: "\<forall>out \<in> set ?outs. (\<exists>msg. snd out = Inl msg) \<or> (\<exists>r. snd out = Inr r)"
    by (metis sum.exhaust)
  from 1 2 3 4 5 show ?thesis by blast
qed

theorem one_outcome_per_submission_witness:
  "\<exists>outs. run_pool example_world 8 (\<lambda>a. a) [example_article, denied_article] = Inr outs
     \<and> length outs = 2
     \<and> outs = [(denied_article,
                 Inl ''Failed to process https://edition.cnn.com/2025/Ads/x: timeout''),
                (example_article, Inr example_article)]"
proof -
  have pos: "(0::int) < 8" by simp
  have ne: "url example_article \<noteq> url denied_article"
    by (simp add: example_article_def denied_article_def)
  have p1: "process_article example_world example_article = Inr example_article"
    using ne by (simp add: process_article_def example_world_def)
  have p2: "process_article example_world denied_article
              = Inl ''Failed to process https://edition.cnn.com/2025/Ads/x: timeout''"
    by (simp add: process_article_def example_world_def denied_article_def)
  have c: "completion example_world = [1, 0]" by (simp add: example_world_def)
  have run: "run_pool example_world 8 (\<lambda>a. a) [example_article, denied_article]
     = Inr [(denied_article, Inl ''Failed to process https://edition.cnn.com/2025/Ads/x: timeout''),
            (example_article, Inr example_article)]"
    by (simp add: run_pool_def p1 p2 c)
  from one_outcome_per_submission [OF pos, of example_world "\<lambda>a. a"
      "[example_article, denied_article]"]
  obtain outs where o: "run_pool example_world 8 (\<lambda>a. a) [example_article, denied_article] = Inr outs"
    and l: "length outs = length [example_article, denied_article]"
    by blast
  from o run have "outs = [(denied_article,
                 Inl ''Failed to process https://edition.cnn.com/2025/Ads/x: timeout''),
                (example_article, Inr example_article)]"
    by simp
  moreover from l have "length outs = 2" by simp
  ultimately show ?thesis using o by blast
qed

text \<open>
  C3. When fetching a submitted item raises, its outcome is the text
  \<open>Failed to process <url>: <message>\<close>; every submitted item still has its outcome, the
  loop skips the failure and goes on, and the run ends with a result, not an exception,
  once the sites were built.
\<close>

theorem failure_is_contained:
  assumes "0 < workers" and "x \<in> set submitted" and "download_parse_nlp w (art x) = Inl e"
  shows "\<exists>outs. run_pool w workers art submitted = Inr outs
           \<and> (x, Inl (''Failed to process '' @ url (art x) @ '': '' @ e)) \<in> set outs
           \<and> (\<forall>y \<in> set submitted. (y, process_article w (art y)) \<in> set outs)
           \<and> (\<forall>futures results.
                 collect w kws keep
                   ((x, Inl (''Failed to process '' @ url (art x) @ '': '' @ e)) # futures) results
                 = collect w kws keep futures results)
           \<and> (\<forall>log all_raw. build_sources w mx SOURCES [] [] = (log, Inr all_raw)
                 \<longrightarrow> (\<exists>res. snd (scrape_sources w workers kws mx) = Inr res))
           \<and> (\<forall>articles. build w ''https://edition.cnn.com'' = Inr articles
                 \<longrightarrow> (\<exists>res. snd (scrape_all_articles w workers mx kws) = Inr res))"
proof -
  let ?futures = "map (\<lambda>x. (x, process_article w (art x))) submitted"
  let ?outs = "as_completed (completion w) ?futures"
  have 1: "run_pool w workers art submitted = Inr ?outs"
    using assms(1) by (rule run_pool_positive)
  have all: "\<forall>y \<in> set submitted. (y, process_article w (art y)) \<in> set ?outs"
    by (simp add: set_as_completed)
  have "process_article w (art x) = Inl (''Failed to process '' @ url (art x) @ '': '' @ e)"
    using assms(3) by (simp add: process_article_def)
  with all assms(2)
  have 2: "(x, Inl (''Failed to process '' @ url (art x) @ '': '' @ e)) \<in> set ?outs"
    by metis
  have 3: "\<forall>futures results.
             collect w kws keep
               ((x, Inl (''Failed to process '' @ url (art x) @ '': '' @ e)) # futures) results
             = collect w kws keep futures results"
    by (simp only: collect_failed simp_thms)
  have 4: "\<forall>log all_raw. build_sources w mx SOURCES [] [] = (log, Inr all_raw)
             \<longrightarrow> (\<exists>res. snd (scrape_sources w workers kws mx) = Inr res)"
    using build_sources_run [OF _ assms(1)] by blast
  have 5: "\<forall>articles. build w ''https://edition.cnn.com'' = Inr articles
             \<longrightarrow> (\<exists>res. snd (scrape_all_articles w workers mx kws) = Inr res)"
    using build_run_single [OF _ assms(1)] by blast
  show ?thesis
    by (rule exI [of _ ?outs]) (intro conjI 1 2 all 3 4 5)
qed


theorem failure_is_contained_witness:
  "\<exists>outs. run_pool example_world 1 (\<lambda>a. a) [example_article, denied_article] = Inr outs
     \<and> (denied_article, Inl ''Failed to process https://edition.cnn.com/2025/Ads/x: timeout'')
         \<in> set outs
     \<and> (example_article, Inr example_article) \<in> set outs"
proof -
  have pos: "(0::int) < 1" by simp
  have mem: "denied_article \<in> set [example_article, denied_article]" by simp
  have fail: "download_parse_nlp example_world denied_article = Inl ''timeout''"
    by (simp add: example_world_def)
  have ne: "url example_article \<noteq> url denied_article"
    by (simp add: example_article_def denied_article_def)
  have p1: "process_article example_world example_article = Inr example_article"
    using ne by (simp add: process_article_def example_world_def)
  have u: "''Failed to process '' @ url denied_article @ '': '' @ ''timeout''
             = ''Failed to process https://edition.cnn.com/2025/Ads/x: timeout''"
    by (simp add: denied_article_def)
  from failure_is_contained [where art = "\<lambda>a. a" and x = denied_article
      and w = example_world and e = "''timeout''", OF pos mem fail]
  obtain outs where o: "run_pool example_world 1 (\<lambda>a. a) [example_article, denied_article] = Inr outs"
    and f: "(denied_article,
             Inl (''Failed to process '' @ url denied_article @ '': '' @ ''timeout''))
            \<in> set outs"
    and a: "\<forall>y \<in> set [example_article, denied_article].
              (y, process_article example_world y) \<in> set outs"
    by blast
  from a have "(example_article, process_article example_world example_article) \<in> set outs"
    by simp
  with p1 have "(example_article, Inr example_article) \<in> set outs" by simp
  with o f u show ?thesis by (simp only:) blast
qed

section \<open>The run\<close>

lemma slice_to_map: "slice_to (map f xs) n = map f (slice_to xs n)"
  by (simp add: slice_to_def take_map)

lemma apply_cap_map: "apply_cap mx (map f xs) = map f (apply_cap mx xs)"
  by (simp add: apply_cap_def slice_to_map split: option.splits)

lemma apply_cap_cases:
  "apply_cap None xs = xs" "apply_cap (Some 0) xs = xs"
  "0 < n \<Longrightarrow> apply_cap (Some n) xs = take (nat n) xs"
  by (simp_all add: apply_cap_def slice_to_def)

lemma build_sources_ok:
  "\<forall>s \<in> set srcs. \<exists>articles. build w (snd s) = Inr articles \<Longrightarrow>
   build_sources w mx srcs log acc
     = (log @ map (\<lambda>s. Build (snd s)) srcs,
        Inr (acc @ concat (map (\<lambda>s. apply_cap mx (eligible_of w s)) srcs)))"
proof (induction srcs arbitrary: log acc)
  case Nil
  then show ?case by simp
next
  case (Cons s srcs)
  obtain name root where s: "s = (name, root)" by (cases s)
  from Cons.prems s obtain articles where b: "build w root = Inr articles" by auto
  from Cons.prems have rest: "\<forall>s \<in> set srcs. \<exists>articles. build w (snd s) = Inr articles"
    by simp
  have e: "apply_cap mx (eligible_of w (name, root))
             = map (\<lambda>a. (a, name))
                 (apply_cap mx (filter (\<lambda>a. is_valid_article (str_lower w) a name) articles))"
    by (simp add: eligible_of_def b apply_cap_map)
  show ?case
    unfolding s by (simp add: b Cons.IH [OF rest] e Let_def)
qed

lemma build_sources_log:
  "\<exists>roots. fst (build_sources w mx srcs log acc) = log @ map Build roots"
proof (induction srcs arbitrary: log acc)
  case Nil
  have "log = log @ map Build []" by simp
  then show ?case by (metis build_sources.simps(1) fst_conv)
next
  case (Cons s srcs)
  obtain name root where s: "s = (name, root)" by (cases s)
  show ?case
  proof (cases "build w root")
    case (Inl e)
    have "log @ [Build root] = log @ map Build [root]" by simp
    with Inl s show ?thesis by (metis build_sources.simps(2) fst_conv sum.simps(5))
  next
    case (Inr articles)
    from Cons.IH [of "log @ [Build root]"
        "acc @ map (\<lambda>a. (a, name))
           (apply_cap mx (filter (\<lambda>a. is_valid_article (str_lower w) a name) articles))"]
    obtain roots where
      "fst (build_sources w mx srcs (log @ [Build root])
             (acc @ map (\<lambda>a. (a, name))
               (apply_cap mx (filter (\<lambda>a. is_valid_article (str_lower w) a name) articles))))
         = (log @ [Build root]) @ map Build roots"
      by blast
    then have "fst (build_sources w mx (s # srcs) log acc) = log @ map Build (root # roots)"
      by (simp add: s Inr Let_def)
    then show ?thesis by blast
  qed
qed


lemma scrape_sources_log:
  assumes "\<forall>s \<in> set SOURCES. \<exists>articles. build w (snd s) = Inr articles" and "0 < workers"
  shows "fst (scrape_sources w workers kws mx)
           = map (\<lambda>s. Build (snd s)) SOURCES
             @ map (\<lambda>x. Submit (url (fst x)))
                 (concat (map (\<lambda>s. apply_cap mx (eligible_of w s)) SOURCES))"
  using assms(2)
  by (simp add: scrape_sources_def build_sources_ok [OF assms(1)] run_pool_def)

lemma scrape_sources_nonpositive:
  assumes "workers \<le> 0"
  shows "\<exists>e. scrape_sources w workers kws mx = (fst (build_sources w mx SOURCES [] []), Inl e)"
proof (cases "build_sources w mx SOURCES [] []")
  case (Pair log res)
  then show ?thesis
    using assms by (cases res) (simp_all add: scrape_sources_def run_pool_def)
qed

lemma scrape_all_articles_nonpositive:
  assumes "workers \<le> 0"
  shows "\<exists>e. scrape_all_articles w workers peos kws = ([Build ''https://edition.cnn.com''], Inl e)"
  using assms
  by (cases "build w ''https://edition.cnn.com''")
     (simp_all add: scrape_all_articles_def run_pool_def Let_def)

lemma scrape_all_articles_log:
  assumes "build w ''https://edition.cnn.com'' = Inr articles" and "0 < workers"
  shows "fst (scrape_all_articles w workers peos kws)
           = Build ''https://edition.cnn.com''
             # map (\<lambda>a. Submit (url a))
                 (apply_cap peos
                    (filter (\<lambda>a. prefix ''https://edition.cnn.com/2025/'' (url a)) articles))"
  using assms by (simp add: scrape_all_articles_def run_pool_def Let_def)

lemma example_world_builds:
  "\<forall>s \<in> set SOURCES. \<exists>articles. build example_world (snd s) = Inr articles"
  by (simp add: SOURCES_def example_world_def)

text \<open>
  C9, as the code has it. With zero or fewer workers the run ends with an exception and no
  task is ever given to the pool; the sites have been built by then. When every
  \<open>build\<close> succeeds the exception is the \<open>ValueError\<close> of the pool and the log holds
  one \<open>build\<close> for each site. The variant for one site does the same.
\<close>

theorem nonpositive_workers_fail_after_discovery:
  assumes "workers \<le> 0"
  shows "(\<exists>e. snd (scrape_sources w workers kws mx) = Inl e)
       \<and> (\<forall>u. Submit u \<notin> set (fst (scrape_sources w workers kws mx)))
       \<and> ((\<forall>s \<in> set SOURCES. \<exists>articles. build w (snd s) = Inr articles) \<longrightarrow>
            scrape_sources w workers kws mx
              = (map (\<lambda>s. Build (snd s)) SOURCES,
                 Inl (ValueError ''max_workers must be greater than 0'')))
       \<and> (\<exists>e. scrape_all_articles w workers mx kws = ([Build ''https://edition.cnn.com''], Inl e))"
proof -
  from scrape_sources_nonpositive [OF assms] obtain e where
    e: "scrape_sources w workers kws mx = (fst (build_sources w mx SOURCES [] []), Inl e)"
    by blast
  obtain roots where "fst (build_sources w mx SOURCES [] []) = [] @ map Build roots"
    using build_sources_log by blast
  with e have log: "fst (scrape_sources w workers kws mx) = map Build roots" by simp
  have 1: "\<exists>e. snd (scrape_sources w workers kws mx) = Inl e" using e by simp
  have 2: "\<forall>u. Submit u \<notin> set (fst (scrape_sources w workers kws mx))"
    unfolding log by auto
  have 3: "(\<forall>s \<in> set SOURCES. \<exists>articles. build w (snd s) = Inr articles) \<longrightarrow>
            scrape_sources w workers kws mx
              = (map (\<lambda>s. Build (snd s)) SOURCES,
                 Inl (ValueError ''max_workers must be greater than 0''))"
  proof
    assume ok: "\<forall>s \<in> set SOURCES. \<exists>articles. build w (snd s) = Inr articles"
    show "scrape_sources w workers kws mx
              = (map (\<lambda>s. Build (snd s)) SOURCES,
                 Inl (ValueError ''max_workers must be greater than 0''))"
      using assms by (simp add: scrape_sources_def build_sources_ok [OF ok] run_pool_def)
  qed
  from 1 2 3 scrape_all_articles_nonpositive [OF assms] show ?thesis by blast
qed

theorem nonpositive_workers_fail_after_discovery_witness:
  "scrape_sources example_world 0 None None
     = ([Build ''https://edition.cnn.com'', Build ''https://www.bbc.com'',
         Build ''https://www.aljazeera.com'', Build ''https://www.timesofisrael.com''],
        Inl (ValueError ''max_workers must be greater than 0''))"
proof -
  have le: "(0::int) \<le> 0" by simp
  from nonpositive_workers_fail_after_discovery [OF le, of example_world None None]
    example_world_builds
  have "scrape_sources example_world 0 None None
          = (map (\<lambda>s. Build (snd s)) SOURCES,
             Inl (ValueError ''max_workers must be greater than 0''))"
    by blast
  then show ?thesis by (simp add: SOURCES_def)
qed

text \<open>
  C9 as stated fails: with 0 workers, and with \<open>-1\<close> in the variant for one site, the
  site of CNN has been built when the run fails.
\<close>

theorem discovery_runs_before_worker_check:
  "Build ''https://edition.cnn.com'' \<in> set (fst (scrape_sources example_world 0 None None))
   \<and> Build ''https://edition.cnn.com'' \<in> set (fst (scrape_all_articles example_world (- 1) None None))"
proof -
  have "fst (scrape_sources example_world 0 None None) = map (\<lambda>s. Build (snd s)) SOURCES"
    by (simp add: scrape_sources_def build_sources_ok [OF example_world_builds] run_pool_def)
  moreover have "fst (scrape_all_articles example_world (- 1) None None)
                   = [Build ''https://edition.cnn.com'']"
    using scrape_all_articles_nonpositive [of "- 1" example_world None None] by auto
  ultimately show ?thesis by (simp add: SOURCES_def)
qed

text \<open>
  C10. A cap that is absent or 0 leaves the list as it is, and a positive cap \<open>n\<close> keeps
  the first \<open>n\<close> elements. In a run whose sites are built and whose pool has workers,
  every valid article found is submitted when the cap is absent or 0, and the first \<open>n\<close>
  valid articles of each site when the cap is \<open>n > 0\<close>; likewise for \<open>peos\<close> in the
  variant for one site.
\<close>

theorem cap_zero_is_no_limit:
  assumes "\<forall>s \<in> set SOURCES. \<exists>articles. build w (snd s) = Inr articles" and "0 < workers"
  shows "apply_cap None xs = xs \<and> apply_cap (Some 0) xs = xs
       \<and> (0 < n \<longrightarrow> apply_cap (Some n) xs = take (nat n) xs)
       \<and> (mx = None \<or> mx = Some 0 \<longrightarrow>
            fst (scrape_sources w workers kws mx)
              = map (\<lambda>s. Build (snd s)) SOURCES
                @ map (\<lambda>x. Submit (url (fst x))) (concat (map (eligible_of w) SOURCES)))
       \<and> (0 < n \<longrightarrow>
            fst (scrape_sources w workers kws (Some n))
              = map (\<lambda>s. Build (snd s)) SOURCES
                @ map (\<lambda>x. Submit (url (fst x)))
                    (concat (map (\<lambda>s. take (nat n) (eligible_of w s)) SOURCES)))
       \<and> (\<forall>articles. build w ''https://edition.cnn.com'' = Inr articles \<longrightarrow>
            (mx = None \<or> mx = Some 0 \<longrightarrow>
               fst (scrape_all_articles w workers mx kws)
                 = Build ''https://edition.cnn.com''
                   # map (\<lambda>a. Submit (url a))
                       (filter (\<lambda>a. prefix ''https://edition.cnn.com/2025/'' (url a)) articles))
          \<and> (0 < n \<longrightarrow>
               fst (scrape_all_articles w workers (Some n) kws)
                 = Build ''https://edition.cnn.com''
                   # map (\<lambda>a. Submit (url a))
                       (take (nat n)
                          (filter (\<lambda>a. prefix ''https://edition.cnn.com/2025/'' (url a)) articles))))"
proof -
  note log = scrape_sources_log [OF assms]
  have 1: "mx = None \<or> mx = Some 0 \<longrightarrow>
            fst (scrape_sources w workers kws mx)
              = map (\<lambda>s. Build (snd s)) SOURCES
                @ map (\<lambda>x. Submit (url (fst x))) (concat (map (eligible_of w) SOURCES))"
    using log [of kws mx] by (auto simp: apply_cap_cases)
  have 2: "0 < n \<longrightarrow>
            fst (scrape_sources w workers kws (Some n))
              = map (\<lambda>s. Build (snd s)) SOURCES
                @ map (\<lambda>x. Submit (url (fst x)))
                    (concat (map (\<lambda>s. take (nat n) (eligible_of w s)) SOURCES))"
    using log [of kws "Some n"] by (simp add: apply_cap_cases)
  have 3: "\<forall>articles. build w ''https://edition.cnn.com'' = Inr articles \<longrightarrow>
            (mx = None \<or> mx = Some 0 \<longrightarrow>
               fst (scrape_all_articles w workers mx kws)
                 = Build ''https://edition.cnn.com''
                   # map (\<lambda>a. Submit (url a))
                       (filter (\<lambda>a. prefix ''https://edition.cnn.com/2025/'' (url a)) articles))
          \<and> (0 < n \<longrightarrow>
               fst (scrape_all_articles w workers (Some n) kws)
                 = Build ''https://edition.cnn.com''
                   # map (\<lambda>a. Submit (url a))
                       (take (nat n)
                          (filter (\<lambda>a. prefix ''https://edition.cnn.com/2025/'' (url a)) articles)))"
    using assms(2) by (auto simp: scrape_all_articles_log apply_cap_cases)
  from 1 2 3 show ?thesis by (simp add: apply_cap_cases)
qed


theorem cap_zero_is_no_limit_witness:
  "fst (scrape_sources example_world 8 None (Some 0))
     = [Build ''https://edition.cnn.com'', Build ''https://www.bbc.com'',
        Build ''https://www.aljazeera.com'', Build ''https://www.timesofisrael.com'',
        Submit ''https://edition.cnn.com/2025/a '']
   \<and> apply_cap (Some 1) [example_article, denied_article] = [example_article]
   \<and> fst (scrape_all_articles example_world 8 (Some 1) None)
     = [Build ''https://edition.cnn.com'', Submit ''https://edition.cnn.com/2025/a '']"
proof -
  have pos: "(0::int) < 8" by simp
  have l: "str_lower example_world = ascii_lower" by (simp add: example_world_def)
  have low: "ascii_lower (url example_article) = ''https://edition.cnn.com/2025/a ''"
    by (simp add: example_article_def ascii_lower_def ascii_lower_char_def)
  have v1: "is_valid_article ascii_lower example_article ''CNN''"
    by (simp add: is_valid_article_def is_valid_article_in_def low BAD_PATTERNS_def
        GOOD_PATTERNS_def dict_get_def sublist_code(3))
  have v2: "\<not> is_valid_article ascii_lower denied_article ''CNN''"
    by (simp add: is_valid_article_def is_valid_article_in_def lower_denied BAD_PATTERNS_def
        sublist_code(3))
  have b1: "build example_world ''https://edition.cnn.com'' = Inr [example_article, denied_article]"
    and b2: "build example_world ''https://www.bbc.com'' = Inr []"
    and b3: "build example_world ''https://www.aljazeera.com'' = Inr []"
    and b4: "build example_world ''https://www.timesofisrael.com'' = Inr []"
    by (simp_all add: example_world_def)
  have e: "concat (map (eligible_of example_world) SOURCES) = [(example_article, ''CNN'')]"
    by (simp add: SOURCES_def eligible_of_def b1 b2 b3 b4 l v1 v2)
  have p: "filter (\<lambda>a. prefix ''https://edition.cnn.com/2025/'' (url a))
             [example_article, denied_article] = [example_article, denied_article]"
    by (simp add: example_article_def denied_article_def)
  have u: "url example_article = ''https://edition.cnn.com/2025/a ''"
    by (simp add: example_article_def)
  have one: "(0::int) < 1" and z: "Some (0::int) = None \<or> Some (0::int) = Some 0" by simp_all
  note c = cap_zero_is_no_limit [OF example_world_builds pos,
      of "[example_article, denied_article]" 1 "Some 0" None]
  from c z have
    "fst (scrape_sources example_world 8 None (Some 0))
       = map (\<lambda>s. Build (snd s)) SOURCES
         @ map (\<lambda>x. Submit (url (fst x))) (concat (map (eligible_of example_world) SOURCES))"
    by blast
  then have 1: "fst (scrape_sources example_world 8 None (Some 0))
     = [Build ''https://edition.cnn.com'', Build ''https://www.bbc.com'',
        Build ''https://www.aljazeera.com'', Build ''https://www.timesofisrael.com'',
        Submit ''https://edition.cnn.com/2025/a '']"
    by (simp add: e u) (simp add: SOURCES_def)
  from c one have
    "apply_cap (Some 1) [example_article, denied_article]
       = take (nat 1) [example_article, denied_article]"
    by blast
  then have 2: "apply_cap (Some 1) [example_article, denied_article] = [example_article]"
    by simp
  from c b1 one have
    "fst (scrape_all_articles example_world 8 (Some 1) None)
       = Build ''https://edition.cnn.com''
         # map (\<lambda>a. Submit (url a))
             (take (nat 1)
                (filter (\<lambda>a. prefix ''https://edition.cnn.com/2025/'' (url a))
                   [example_article, denied_article]))"
    by blast
  then have 3: "fst (scrape_all_articles example_world 8 (Some 1) None)
     = [Build ''https://edition.cnn.com'', Submit ''https://edition.cnn.com/2025/a '']"
    by (simp add: p u)
  from 1 2 3 show ?thesis by (simp only: simp_thms)
qed

section \<open>Search\<close>

lemma example_table_row:
  "example_table =
     [\<lparr> source_col = ''CNN'', title_col = [CHR ''a'', CHR 0x01, CHR ''b''],
        url_col = ''https://edition.cnn.com/2025/a'', summary_col = ''peace talks'',
        keywords_col = ''summit, peace'', text_col = ''Election Day'' \<rparr>]"
proof -
  have "clean_text (Some ''summit, peace'') = ''summit, peace''"
    and "clean_text (Some ''Election Day'') = ''Election Day''"
    by (simp_all add: clean_text_def strip_def lstrip_def rstrip_def NUL_def WHITESPACE_def
        strip_left.simps)
  then show ?thesis
    by (simp add: example_table_def save_article_def insert_or_ignore_def init_db_def
        new_row_def example_article_def clean_text_examples)
qed

lemmas like_eval = like_def c_string_def NUL_def continuation_def ascii_lower_def
  ascii_lower_char_def

text \<open>
  The query on examples: a term is found without regard to the case of its ASCII
  letters, no row gives the empty list, and a pattern of more than 50000 bytes is
  refused when there is a row to test. In \<open>LIKE\<close> a \<open>_\<close> stands for one character, of
  two bytes here, and the pattern ends at a NUL.
\<close>

lemma search_examples:
  "search_articles ''PEACE'' example_table
     = Inr [(''CNN'', [CHR ''a'', CHR 0x01, CHR ''b''], ''https://edition.cnn.com/2025/a'',
             ''peace talks'')]"
  "search_articles ''peace'' (init_db None) = Inr []"
  "search_articles ''war'' example_table = Inr []"
  "search_articles (replicate 49999 (CHR ''a'')) example_table
     = Inl (OperationalError ''LIKE or GLOB pattern too complex'')"
  by (simp_all add: search_articles_def example_table_row init_db_def like_eval)

lemma like_examples:
  "like ''%caf_ %'' (''caf'' @ [CHR 0xC3, CHR 0x89] @ '' x'')"
  "\<not> like ''%caf__ %'' (''caf'' @ [CHR 0xC3, CHR 0x89] @ '' x'')"
  "like (''%pea'' @ [CHR 0x00] @ ''zzz%'') ''a pea''"
  "\<not> like (''%pea'' @ [CHR 0x00] @ ''zzz%'') ''peace talks''"
  by (simp_all add: like_eval)

text \<open>
  C7 fails for a search term with a wildcard of \<open>LIKE\<close>, which the program does not
  escape: the term \<open>_\<close> fetches the stored row, although no underscore occurs in its
  summary, text or keywords.
\<close>

theorem search_underscore_is_wildcard:
  "search_articles ''_'' example_table
     = Inr [(''CNN'', [CHR ''a'', CHR 0x01, CHR ''b''], ''https://edition.cnn.com/2025/a'',
             ''peace talks'')]
   \<and> \<not> list_ex (\<lambda>r. sublist (ascii_lower ''_'') (ascii_lower (summary_col r))
                     \<or> sublist (ascii_lower ''_'') (ascii_lower (text_col r))
                     \<or> sublist (ascii_lower ''_'') (ascii_lower (keywords_col r))) example_table"
  by (simp add: search_articles_def example_table_row like_eval sublist_code(3))

end
